theory Spec2Isabelle
  imports Complex_Main
begin

section \<open>Python values shared by both scripts\<close>

text \<open>
  A Python \<open>str\<close> is modelled as a \<open>string\<close> whose characters are the code points
  U+0000 to U+00FF. The exceptions a network call can raise are grouped by the
  \<open>except\<close> clauses of the two scripts: the three classes named by
  \<open>lookup_postcode\<close> (a subclass counts as its listed ancestor), any other subclass of
  \<open>Exception\<close>, and a \<open>BaseException\<close> that is not an \<open>Exception\<close>
  (\<open>KeyboardInterrupt\<close>, \<open>SystemExit\<close>).
\<close>

datatype exn =
    GeocoderTimedOut
  | GeocoderUnavailable
  | RequestException
  | OtherException string
  | BaseExceptionOnly string

fun is_Exception :: "exn \<Rightarrow> bool" where
  "is_Exception (BaseExceptionOnly _) = False"
| "is_Exception _ = True"

text \<open>One call of a transport either returns a value or raises.\<close>

datatype 'r reply = Return 'r | Raise exn

text \<open>What the scripts write with \<open>print\<close> and \<open>logging\<close>, unformatted.\<close>

datatype 'a message =
    PrintEncountered int 'a real
  | PrintError 'a exn
  | LogWarning int 'a exn int
  | LogError 'a
  | LogInfoFilled int string
  | LogInfoNoZip int 'a

text \<open>
  The effects of a run: how many transport calls were made, how many random numbers
  were drawn, the arguments of \<open>time.sleep\<close> in order, and the messages written.
  The transport is a function of the identifier and of the number of calls made
  before; the random generator is a function of the number of draws made before.
\<close>

record 'a world =
  calls :: nat
  draws :: nat
  sleeps :: "real list"
  messages :: "'a message list"

definition uniform :: "real \<Rightarrow> real \<Rightarrow> real \<Rightarrow> real" where
  \<comment> \<open>\<open>random.uniform(a, b)\<close> is \<open>a + (b - a) * random()\<close>; \<open>u\<close> is the draw.\<close>
  "uniform a b u = a + (b - a) * u"

definition lower_char :: "char \<Rightarrow> char" where
  "lower_char c =
     (let n = (of_char c :: nat)
      in if (65 \<le> n \<and> n \<le> 90) \<or> (192 \<le> n \<and> n \<le> 222 \<and> n \<noteq> 215)
         then char_of (n + 32) else c)"

definition lower :: "string \<Rightarrow> string" where
  "lower s = map lower_char s"

fun py_in :: "string \<Rightarrow> string \<Rightarrow> bool" where
  "py_in needle [] = (needle = [])"
| "py_in needle (c # cs) = (take (length needle) (c # cs) = needle \<or> py_in needle cs)"

section \<open>url_checker.py\<close>

definition RESPONSE_CODES :: "(int \<times> string) list" where
  "RESPONSE_CODES =
     [(100, ''Continue''), (101, ''Switching Protocols''),
      (200, ''OK''), (201, ''Created''), (202, ''Accepted''), (204, ''No Content''),
      (301, ''Moved Permanently''), (302, ''Found''), (304, ''Not Modified''),
      (400, ''Bad Request''), (401, ''Unauthorized''), (403, ''Forbidden''),
      (404, ''Not Found''),
      (500, ''Internal Server Error''), (502, ''Bad Gateway''),
      (503, ''Service Unavailable''), (504, ''Gateway Timeout'')]"

definition RESPONSE_CODES_get :: "int \<Rightarrow> string \<Rightarrow> string" where
  "RESPONSE_CODES_get code dflt =
     (case map_of RESPONSE_CODES code of None \<Rightarrow> dflt | Some name \<Rightarrow> name)"

record response =
  status_code :: int
  rtext :: "string option"

definition text_or_empty :: "string option \<Rightarrow> string" where
  \<comment> \<open>\<open>r.text or ''\<close>\<close>
  "text_or_empty t = (case t of None \<Rightarrow> [] | Some s \<Rightarrow> s)"

definition soft_failure :: "response \<Rightarrow> bool" where
  \<comment> \<open>\<open>code in (429, 503) or 'captcha' in (r.text or '').lower()\<close>\<close>
  "soft_failure r =
     (status_code r = 429 \<or> status_code r = 503
      \<or> py_in ''captcha'' (lower (text_or_empty (rtext r))))"

text \<open>
  The body of \<open>check_url\<close>: one equation per state of the \<open>for\<close> loop, the list
  being the values of \<open>attempt\<close> still to come. The result is \<open>Inl e\<close> when the
  exception \<open>e\<close> leaves the function, \<open>Inr\<close> of the returned pair otherwise.
\<close>

fun check_url_loop ::
  "('a \<Rightarrow> nat \<Rightarrow> response reply) \<Rightarrow> (nat \<Rightarrow> real) \<Rightarrow> 'a \<Rightarrow> int list \<Rightarrow> 'a world
     \<Rightarrow> (exn + int option \<times> string) \<times> 'a world" where
  "check_url_loop session rng url [] w = (Inr (None, ''Failed after retries''), w)"
| "check_url_loop session rng url (attempt # rest) w =
     (let w1 = w\<lparr>calls := Suc (calls w)\<rparr>
      in case session url (calls w) of
           Return r \<Rightarrow>
             (let code = status_code r
              in if soft_failure r then
                   (let wait = uniform 5 10 (rng (draws w1));
                        w2 = w1\<lparr>draws := Suc (draws w1),
                                messages := messages w1 @ [PrintEncountered code url wait],
                                sleeps := sleeps w1 @ [wait]\<rparr>
                    in check_url_loop session rng url rest w2)
                 else (Inr (Some code, RESPONSE_CODES_get code ''Unknown''), w1))
         | Raise e \<Rightarrow>
             (if is_Exception e then
                (let w2 = w1\<lparr>draws := Suc (draws w1),
                              messages := messages w1 @ [PrintError url e],
                              sleeps := sleeps w1 @ [uniform 2 4 (rng (draws w1))]\<rparr>
                 in check_url_loop session rng url rest w2)
              else (Inl e, w1)))"

definition check_url ::
  "('a \<Rightarrow> nat \<Rightarrow> response reply) \<Rightarrow> (nat \<Rightarrow> real) \<Rightarrow> 'a \<Rightarrow> int \<Rightarrow> 'a world
     \<Rightarrow> (exn + int option \<times> string) \<times> 'a world" where
  "check_url session rng url max_retries w =
     check_url_loop session rng url [1..max_retries] w"

section \<open>zipcode_finder.py\<close>

text \<open>
  A geocoder result is \<open>None\<close> or a location; of a location the script reads only
  \<open>loc.raw.get('address', {})\<close>, so \<open>raw_address\<close> is \<open>None\<close> when \<open>raw\<close> has no
  \<open>address\<close> key. A location object is always true in a condition.
\<close>

datatype location = Location (raw_address: "(string \<rightharpoonup> string) option")

definition address_dict :: "location \<Rightarrow> (string \<rightharpoonup> string)" where
  \<comment> \<open>\<open>loc.raw.get('address', {})\<close>\<close>
  "address_dict loc = (case raw_address loc of None \<Rightarrow> Map.empty | Some d \<Rightarrow> d)"

definition caught_by_lookup :: "exn \<Rightarrow> bool" where
  \<comment> \<open>\<open>except (GeocoderTimedOut, GeocoderUnavailable, RequestException)\<close>\<close>
  "caught_by_lookup e =
     (e = GeocoderTimedOut \<or> e = GeocoderUnavailable \<or> e = RequestException)"

definition backoff :: "int \<Rightarrow> int" where
  \<comment> \<open>\<open>min(20, 2 ** attempt)\<close>, for the values \<open>attempt \<ge> 1\<close> of the loop\<close>
  "backoff attempt = min 20 (2 ^ nat attempt)"

fun lookup_postcode_loop ::
  "('a \<Rightarrow> nat \<Rightarrow> location option reply) \<Rightarrow> 'a \<Rightarrow> int list \<Rightarrow> 'a world
     \<Rightarrow> (exn + string) \<times> 'a world" where
  "lookup_postcode_loop geocode address [] w =
     (Inr [], w\<lparr>messages := messages w @ [LogError address]\<rparr>)"
| "lookup_postcode_loop geocode address (attempt # rest) w =
     (let w1 = w\<lparr>calls := Suc (calls w)\<rparr>
      in case geocode address (calls w) of
           Return loc \<Rightarrow>
             (case loc of
                None \<Rightarrow> (Inr [], w1)
              | Some l \<Rightarrow>
                  (case address_dict l ''postcode'' of
                     Some postcode \<Rightarrow> (Inr postcode, w1)
                   | None \<Rightarrow> (Inr [], w1)))
         | Raise e \<Rightarrow>
             (if caught_by_lookup e then
                (let wait = backoff attempt;
                     w2 = w1\<lparr>messages := messages w1 @ [LogWarning attempt address e wait],
                              sleeps := sleeps w1 @ [real_of_int wait]\<rparr>
                 in lookup_postcode_loop geocode address rest w2)
              else (Inl e, w1)))"

definition lookup_postcode ::
  "('a \<Rightarrow> nat \<Rightarrow> location option reply) \<Rightarrow> 'a \<Rightarrow> int \<Rightarrow> 'a world
     \<Rightarrow> (exn + string) \<times> 'a world" where
  "lookup_postcode geocode address retries w =
     lookup_postcode_loop geocode address [1..retries] w"

subsection \<open>The loop over the rows of the worksheet\<close>

text \<open>
  A cell holds nothing, a string, an integer or a boolean (cells holding floating-point
  numbers or dates are not modelled). Of a row the loop touches the value and the fill
  of the zip cell and the value of the address cell.
\<close>

datatype cell_value = CNone | CStr string | CInt int | CBool bool

fun truthy :: "cell_value \<Rightarrow> bool" where
  "truthy CNone = False"
| "truthy (CStr s) = (s \<noteq> [])"
| "truthy (CInt n) = (n \<noteq> 0)"
| "truthy (CBool b) = b"

fun digits :: "nat \<Rightarrow> string" where
  "digits n =
     (if n < 10 then [char_of (48 + n)]
      else digits (n div 10) @ [char_of (48 + n mod 10)])"

fun py_str :: "cell_value \<Rightarrow> string" where
  "py_str CNone = ''None''"
| "py_str (CStr s) = s"
| "py_str (CInt n) = (if n < 0 then CHR ''-'' # digits (nat (- n)) else digits (nat n))"
| "py_str (CBool b) = (if b then ''True'' else ''False'')"

definition isspace :: "char \<Rightarrow> bool" where
  "isspace c =
     (let n = (of_char c :: nat)
      in (9 \<le> n \<and> n \<le> 13) \<or> (28 \<le> n \<and> n \<le> 32) \<or> n = 133 \<or> n = 160)"

definition strip :: "string \<Rightarrow> string" where
  "strip s = rev (dropWhile isspace (rev (dropWhile isspace s)))"

definition zip_is_blank :: "cell_value \<Rightarrow> bool" where
  \<comment> \<open>\<open>not zip_cell.value or str(zip_cell.value).strip() == ""\<close>\<close>
  "zip_is_blank v = (\<not> truthy v \<or> strip (py_str v) = [])"

record row =
  zip_value :: cell_value
  zip_yellow :: bool
  full_address :: cell_value

definition fill_row ::
  "(cell_value \<Rightarrow> nat \<Rightarrow> location option reply) \<Rightarrow> (nat \<Rightarrow> real) \<Rightarrow> int \<Rightarrow> row
     \<Rightarrow> cell_value world \<Rightarrow> exn option \<times> row \<times> cell_value world" where
  "fill_row geocode rng rownum r w =
     (if zip_is_blank (zip_value r) then
        (let address = (if truthy (full_address r) then full_address r else CStr [])
         in case lookup_postcode geocode address 3 w of
              (Inl e, w1) \<Rightarrow> (Some e, r, w1)
            | (Inr postcode, w1) \<Rightarrow>
                (let (r2, w2) =
                       (if postcode \<noteq> [] then
                          (r\<lparr>zip_value := CStr postcode, zip_yellow := True\<rparr>,
                           w1\<lparr>messages := messages w1 @ [LogInfoFilled rownum postcode]\<rparr>)
                        else (r, w1\<lparr>messages := messages w1 @ [LogInfoNoZip rownum address]\<rparr>));
                     w3 = w2\<lparr>draws := Suc (draws w2),
                              sleeps := sleeps w2 @ [uniform 1 5 (rng (draws w2))]\<rparr>
                 in (None, r2, w3)))
      else (None, r, w))"

text \<open>
  \<open>for row in range(2, ws.max_row + 1)\<close>: the rows from \<open>rownum\<close> on, in order. An
  exception that leaves \<open>lookup_postcode\<close> ends the script, the rows after it untouched.
\<close>

fun fill_rows ::
  "(cell_value \<Rightarrow> nat \<Rightarrow> location option reply) \<Rightarrow> (nat \<Rightarrow> real) \<Rightarrow> int \<Rightarrow> row list
     \<Rightarrow> cell_value world \<Rightarrow> exn option \<times> row list \<times> cell_value world" where
  "fill_rows geocode rng rownum [] w = (None, [], w)"
| "fill_rows geocode rng rownum (r # rs) w =
     (case fill_row geocode rng rownum r w of
        (Some e, r', w') \<Rightarrow> (Some e, r' # rs, w')
      | (None, r', w') \<Rightarrow>
          (case fill_rows geocode rng (rownum + 1) rs w' of
             (res, rs', w'') \<Rightarrow> (res, r' # rs', w'')))"

definition fill_blank_zips ::
  "(cell_value \<Rightarrow> nat \<Rightarrow> location option reply) \<Rightarrow> (nat \<Rightarrow> real) \<Rightarrow> row list
     \<Rightarrow> cell_value world \<Rightarrow> exn option \<times> row list \<times> cell_value world" where
  "fill_blank_zips geocode rng rows w = fill_rows geocode rng 2 rows w"

text \<open>
  What the loop can do to a row: the zip cell was blank for the test of the loop, and it
  now holds a non-empty postcode and the yellow fill; nothing else of the row changed.
\<close>

definition row_filled :: "row \<Rightarrow> row \<Rightarrow> bool" where
  "row_filled r r' \<longleftrightarrow>
     zip_is_blank (zip_value r)
     \<and> (\<exists>postcode. postcode \<noteq> [] \<and> r' = r\<lparr>zip_value := CStr postcode, zip_yellow := True\<rparr>)"

section \<open>Retryable replies\<close>

text \<open>
  The replies after which each loop sleeps and goes on to the next attempt, read off
  the branches of the two loops: for \<open>check_url\<close> a response that is a soft failure
  or any raised \<open>Exception\<close>; for \<open>lookup_postcode\<close> one of the three exceptions
  its \<open>except\<close> clause names.
\<close>

fun url_retryable :: "response reply \<Rightarrow> bool" where
  "url_retryable (Return r) = soft_failure r"
| "url_retryable (Raise e) = is_Exception e"

fun geo_retryable :: "location option reply \<Rightarrow> bool" where
  "geo_retryable (Return loc) = False"
| "geo_retryable (Raise e) = caught_by_lookup e"

text \<open>
  The errors that the specification calls transport-level (timeout, connection refused,
  DNS failure), as a second classification that follows its words: in \<open>requests\<close>
  they are subclasses of \<open>RequestException\<close>, in \<open>geopy\<close> they are
  \<open>GeocoderTimedOut\<close> and \<open>GeocoderUnavailable\<close>.
\<close>

definition transport_level_error :: "exn \<Rightarrow> bool" where
  "transport_level_error e =
     (e = RequestException \<or> e = GeocoderTimedOut \<or> e = GeocoderUnavailable)"

section \<open>Concrete transports and worlds\<close>

definition w0 :: "'a world" where
  "w0 = \<lparr>calls = 0, draws = 0, sleeps = [], messages = []\<rparr>"

definition rng_half :: "nat \<Rightarrow> real" where
  "rng_half n = 1 / 2"

definition always_429 :: "string \<Rightarrow> nat \<Rightarrow> response reply" where
  "always_429 url n = Return \<lparr>status_code = 429, rtext = Some ''Too Many Requests''\<rparr>"

definition twice_429_then_200 :: "string \<Rightarrow> nat \<Rightarrow> response reply" where
  "twice_429_then_200 url n =
     (if n < 2 then Return \<lparr>status_code = 429, rtext = None\<rparr>
      else Return \<lparr>status_code = 200, rtext = Some ''hello''\<rparr>)"

definition captcha_page :: "string \<Rightarrow> nat \<Rightarrow> response reply" where
  "captcha_page url n = Return \<lparr>status_code = 200, rtext = Some ''Solve this CAPTCHA''\<rparr>"

definition value_error_then_200 :: "string \<Rightarrow> nat \<Rightarrow> response reply" where
  "value_error_then_200 url n =
     (if n < 1 then Raise (OtherException ''ValueError'')
      else Return \<lparr>status_code = 200, rtext = Some ''hello''\<rparr>)"

definition timeout_geocoder :: "string \<Rightarrow> nat \<Rightarrow> location option reply" where
  "timeout_geocoder address n = Raise GeocoderTimedOut"

definition quota_geocoder :: "string \<Rightarrow> nat \<Rightarrow> location option reply" where
  "quota_geocoder address n = Raise (OtherException ''GeocoderQuotaExceeded'')"

definition no_postcode_geocoder :: "string \<Rightarrow> nat \<Rightarrow> location option reply" where
  "no_postcode_geocoder address n =
     Return (Some (Location (Some [''city'' \<mapsto> ''Springfield''])))"

definition flaky_geocoder :: "string \<Rightarrow> nat \<Rightarrow> location option reply" where
  "flaky_geocoder address n =
     (if n < 2 then Raise GeocoderUnavailable
      else Return (Some (Location (Some [''postcode'' \<mapsto> ''90210'']))))"

definition flaky_no_postcode_geocoder :: "string \<Rightarrow> nat \<Rightarrow> location option reply" where
  "flaky_no_postcode_geocoder address n =
     (if n < 1 then Raise RequestException else Return None)"

definition cell_geocoder :: "cell_value \<Rightarrow> nat \<Rightarrow> location option reply" where
  "cell_geocoder address n = Return (Some (Location (Some [''postcode'' \<mapsto> ''90210''])))"

definition zero_zip_row :: row where
  "zero_zip_row =
     \<lparr>zip_value = CInt 0, zip_yellow = False, full_address = CStr ''123 Main St''\<rparr>"

definition filled_row :: row where
  "filled_row =
     \<lparr>zip_value = CStr ''10001'', zip_yellow = False, full_address = CStr ''456 Elm St''\<rparr>"

definition empty_zip_row :: row where
  "empty_zip_row =
     \<lparr>zip_value = CNone, zip_yellow = False, full_address = CStr ''123 Main St''\<rparr>"

section \<open>The retry loops step by step\<close>

text \<open>
  After \<open>k\<close> retryable replies a loop stands at its attempt \<open>k + 1\<close>, having made
  \<open>k\<close> calls and slept \<open>k\<close> times.
\<close>

lemma check_url_loop_skip:
  "k \<le> length atts \<Longrightarrow> (\<forall>i<k. url_retryable (session url (calls w + i))) \<Longrightarrow>
   \<exists>w' ds. check_url_loop session rng url atts w = check_url_loop session rng url (drop k atts) w'
      \<and> calls w' = calls w + k \<and> draws w' = draws w + k
      \<and> sleeps w' = sleeps w @ ds \<and> length ds = k"
proof (induction k arbitrary: atts w)
  case 0
  show ?case by (rule exI[of _ w], rule exI[of _ "[]"]) simp
next
  case (Suc k)
  then obtain a rest where atts: "atts = a # rest" by (cases atts) auto
  have dr: "drop (Suc k) atts = drop k rest" by (simp add: atts)
  from Suc.prems have r0: "url_retryable (session url (calls w))" by force
  obtain w2 d where step: "check_url_loop session rng url atts w = check_url_loop session rng url rest w2"
    and c2: "calls w2 = Suc (calls w)" and d2: "draws w2 = Suc (draws w)"
    and s2: "sleeps w2 = sleeps w @ [d]"
    using r0 unfolding atts by (cases "session url (calls w)") (auto simp: Let_def)
  have "k \<le> length rest" using Suc.prems atts by simp
  moreover have "\<forall>i<k. url_retryable (session url (calls w2 + i))"
    using Suc.prems(2) c2 by (metis Suc_less_eq add_Suc add_Suc_right)
  ultimately obtain w' ds where w':
    "check_url_loop session rng url rest w2 = check_url_loop session rng url (drop k rest) w'"
    "calls w' = calls w2 + k" "draws w' = draws w2 + k"
    "sleeps w' = sleeps w2 @ ds" "length ds = k"
    using Suc.IH[of rest w2] by blast
  show ?case
    by (rule exI[of _ w'], rule exI[of _ "d # ds"]) (simp add: dr step w' c2 d2 s2)
qed

lemma lookup_postcode_loop_skip:
  "k \<le> length atts \<Longrightarrow> (\<forall>i<k. geo_retryable (geocode address (calls w + i))) \<Longrightarrow>
   \<exists>w'. lookup_postcode_loop geocode address atts w =
           lookup_postcode_loop geocode address (drop k atts) w'
      \<and> calls w' = calls w + k \<and> draws w' = draws w
      \<and> sleeps w' = sleeps w @ map (\<lambda>a. real_of_int (backoff a)) (take k atts)
      \<and> (k = 0 \<longrightarrow> messages w' = messages w)"
proof (induction k arbitrary: atts w)
  case 0
  show ?case by (rule exI[of _ w]) simp
next
  case (Suc k)
  then obtain a rest where atts: "atts = a # rest" by (cases atts) auto
  have dr: "drop (Suc k) atts = drop k rest" and tk: "take (Suc k) atts = a # take k rest"
    by (simp_all add: atts)
  from Suc.prems have r0: "geo_retryable (geocode address (calls w))" by force
  obtain w2 where step: "lookup_postcode_loop geocode address atts w =
        lookup_postcode_loop geocode address rest w2"
    and c2: "calls w2 = Suc (calls w)" and d2: "draws w2 = draws w"
    and s2: "sleeps w2 = sleeps w @ [real_of_int (backoff a)]"
    using r0 unfolding atts by (cases "geocode address (calls w)") (auto simp: Let_def)
  have "k \<le> length rest" using Suc.prems atts by simp
  moreover have "\<forall>i<k. geo_retryable (geocode address (calls w2 + i))"
    using Suc.prems(2) c2 by (metis Suc_less_eq add_Suc add_Suc_right)
  ultimately obtain w' where w':
    "lookup_postcode_loop geocode address rest w2 =
       lookup_postcode_loop geocode address (drop k rest) w'"
    "calls w' = calls w2 + k" "draws w' = draws w2"
    "sleeps w' = sleeps w2 @ map (\<lambda>a. real_of_int (backoff a)) (take k rest)"
    using Suc.IH[of rest w2] by blast
  show ?case
    by (rule exI[of _ w']) (simp add: dr tk step w' c2 d2 s2)
qed

lemma check_url_loop_exhausted:
  assumes "\<forall>i<length atts. url_retryable (session url (calls w + i))"
  shows "fst (check_url_loop session rng url atts w) = Inr (None, ''Failed after retries'')
       \<and> calls (snd (check_url_loop session rng url atts w)) = calls w + length atts
       \<and> length (sleeps (snd (check_url_loop session rng url atts w))) = length (sleeps w) + length atts"
  using check_url_loop_skip[of "length atts" atts session url w rng] assms by auto

lemma lookup_postcode_loop_exhausted:
  assumes "\<forall>i<length atts. geo_retryable (geocode address (calls w + i))"
  shows "fst (lookup_postcode_loop geocode address atts w) = Inr []
       \<and> calls (snd (lookup_postcode_loop geocode address atts w)) = calls w + length atts
       \<and> sleeps (snd (lookup_postcode_loop geocode address atts w)) =
           sleeps w @ map (\<lambda>a. real_of_int (backoff a)) atts
       \<and> last (messages (snd (lookup_postcode_loop geocode address atts w))) = LogError address"
  using lookup_postcode_loop_skip[of "length atts" atts geocode address w] assms by auto

lemma check_url_loop_success:
  assumes "k < length atts" "\<forall>i<k. url_retryable (session url (calls w + i))"
    "session url (calls w + k) = Return r" "\<not> soft_failure r"
  shows "fst (check_url_loop session rng url atts w) =
           Inr (Some (status_code r), RESPONSE_CODES_get (status_code r) ''Unknown'')
       \<and> calls (snd (check_url_loop session rng url atts w)) = calls w + k + 1
       \<and> length (sleeps (snd (check_url_loop session rng url atts w))) = length (sleeps w) + k
       \<and> take (length (sleeps w)) (sleeps (snd (check_url_loop session rng url atts w))) = sleeps w"
proof -
  obtain w' ds where w': "check_url_loop session rng url atts w = check_url_loop session rng url (drop k atts) w'"
    "calls w' = calls w + k" "sleeps w' = sleeps w @ ds" "length ds = k"
    using check_url_loop_skip[of k atts session url w rng] assms(1,2) by auto
  obtain a rest where d: "drop k atts = a # rest"
    using assms(1) by (cases "drop k atts") auto
  have res: "check_url_loop session rng url atts w =
      (Inr (Some (status_code r), RESPONSE_CODES_get (status_code r) ''Unknown''),
       w'\<lparr>calls := Suc (calls w')\<rparr>)"
    using assms(3,4) by (simp add: w'(1,2) d Let_def)
  show ?thesis by (simp add: res w'(2,3,4))
qed

lemma lookup_postcode_loop_answer:
  assumes "k < length atts" "\<forall>i<k. geo_retryable (geocode address (calls w + i))"
    "geocode address (calls w + k) = Return loc"
  shows "fst (lookup_postcode_loop geocode address atts w) =
           Inr (case loc of None \<Rightarrow> [] | Some l \<Rightarrow>
                  (case address_dict l ''postcode'' of None \<Rightarrow> [] | Some pc \<Rightarrow> pc))
       \<and> calls (snd (lookup_postcode_loop geocode address atts w)) = calls w + k + 1
       \<and> sleeps (snd (lookup_postcode_loop geocode address atts w)) =
           sleeps w @ map (\<lambda>a. real_of_int (backoff a)) (take k atts)
       \<and> (k = 0 \<longrightarrow> messages (snd (lookup_postcode_loop geocode address atts w)) = messages w)"
proof -
  obtain w' where w': "lookup_postcode_loop geocode address atts w =
       lookup_postcode_loop geocode address (drop k atts) w'"
    "calls w' = calls w + k"
    "sleeps w' = sleeps w @ map (\<lambda>a. real_of_int (backoff a)) (take k atts)"
    "k = 0 \<longrightarrow> messages w' = messages w"
    using lookup_postcode_loop_skip[of k atts geocode address w] assms(1,2) by auto
  obtain a rest where d: "drop k atts = a # rest"
    using assms(1) by (cases "drop k atts") auto
  have res: "lookup_postcode_loop geocode address atts w =
      (Inr (case loc of None \<Rightarrow> [] | Some l \<Rightarrow>
                  (case address_dict l ''postcode'' of None \<Rightarrow> [] | Some pc \<Rightarrow> pc)),
       w'\<lparr>calls := Suc (calls w')\<rparr>)"
    using assms(3) by (simp add: w'(1,2) d Let_def split: option.splits)
  show ?thesis using w'(4) by (simp add: res w'(2,3))
qed

text \<open>
  A status code returned by the loop of \<open>check_url\<close> is that of the response to the
  last call made, and this response is no soft failure.
\<close>

lemma check_url_loop_success_origin:
  "check_url_loop session rng url atts w = (Inr (Some code, msg), w') \<Longrightarrow>
   calls w < calls w'
   \<and> (\<exists>r. session url (calls w' - 1) = Return r \<and> status_code r = code \<and> \<not> soft_failure r)"
proof (induction atts arbitrary: w)
  case Nil
  then show ?case by simp
next
  case (Cons a rest)
  show ?case
  proof (cases "session url (calls w)")
    case (Return r)
    show ?thesis
    proof (cases "soft_failure r")
      case True
      let ?w2 = "w\<lparr>calls := Suc (calls w), draws := Suc (draws w),
             messages := messages w @ [PrintEncountered (status_code r) url (uniform 5 10 (rng (draws w)))],
             sleeps := sleeps w @ [uniform 5 10 (rng (draws w))]\<rparr>"
      have "check_url_loop session rng url rest ?w2 = (Inr (Some code, msg), w')"
        using Cons.prems Return True by (simp add: Let_def)
      from Cons.IH[OF this] show ?thesis by auto
    next
      case False
      then show ?thesis using Cons.prems Return by (auto simp: Let_def)
    qed
  next
    case (Raise e)
    show ?thesis
    proof (cases "is_Exception e")
      case True
      let ?w2 = "w\<lparr>calls := Suc (calls w), draws := Suc (draws w),
             messages := messages w @ [PrintError url e],
             sleeps := sleeps w @ [uniform 2 4 (rng (draws w))]\<rparr>"
      have "check_url_loop session rng url rest ?w2 = (Inr (Some code, msg), w')"
        using Cons.prems Raise True by (simp add: Let_def)
      from Cons.IH[OF this] show ?thesis by auto
    next
      case False
      then show ?thesis using Cons.prems Raise by (auto simp: Let_def)
    qed
  qed
qed

text \<open>
  What each loop sleeps, whatever the transport does; that each loop returns when no
  exception outside its \<open>except\<close> clause is raised; and the backoff of the attempts
  \<open>1, 2, \<dots>\<close> as a function of their position.
\<close>

lemma check_url_loop_sleeps:
  "\<exists>ds. sleeps (snd (check_url_loop session rng url atts w)) = sleeps w @ ds
      \<and> (\<forall>d\<in>set ds. \<exists>n. d = uniform 5 10 (rng n) \<or> d = uniform 2 4 (rng n))"
proof (induction atts arbitrary: w)
  case Nil
  show ?case by simp
next
  case (Cons a rest)
  show ?case
  proof (cases "session url (calls w)")
    case (Return r)
    show ?thesis
    proof (cases "soft_failure r")
      case True
      let ?d = "uniform 5 10 (rng (draws w))"
      let ?w2 = "w\<lparr>calls := Suc (calls w), draws := Suc (draws w),
             messages := messages w @ [PrintEncountered (status_code r) url ?d],
             sleeps := sleeps w @ [?d]\<rparr>"
      have step: "check_url_loop session rng url (a # rest) w = check_url_loop session rng url rest ?w2"
        using Return True by (simp add: Let_def)
      obtain ds where ds: "sleeps (snd (check_url_loop session rng url rest ?w2)) = sleeps ?w2 @ ds"
        "\<forall>d\<in>set ds. \<exists>n. d = uniform 5 10 (rng n) \<or> d = uniform 2 4 (rng n)"
        using Cons.IH[of ?w2] by blast
      show ?thesis
        by (rule exI[of _ "?d # ds"]) (unfold step, use ds in auto)
    next
      case False
      then show ?thesis using Return by (simp add: Let_def)
    qed
  next
    case (Raise e)
    show ?thesis
    proof (cases "is_Exception e")
      case True
      let ?d = "uniform 2 4 (rng (draws w))"
      let ?w2 = "w\<lparr>calls := Suc (calls w), draws := Suc (draws w),
             messages := messages w @ [PrintError url e],
             sleeps := sleeps w @ [?d]\<rparr>"
      have step: "check_url_loop session rng url (a # rest) w = check_url_loop session rng url rest ?w2"
        using Raise True by (simp add: Let_def)
      obtain ds where ds: "sleeps (snd (check_url_loop session rng url rest ?w2)) = sleeps ?w2 @ ds"
        "\<forall>d\<in>set ds. \<exists>n. d = uniform 5 10 (rng n) \<or> d = uniform 2 4 (rng n)"
        using Cons.IH[of ?w2] by blast
      show ?thesis
        by (rule exI[of _ "?d # ds"]) (unfold step, use ds in auto)
    next
      case False
      then show ?thesis using Raise by (simp add: Let_def)
    qed
  qed
qed

lemma lookup_postcode_loop_sleeps:
  "\<exists>k\<le>length atts. sleeps (snd (lookup_postcode_loop geocode address atts w)) =
      sleeps w @ map (\<lambda>a. real_of_int (backoff a)) (take k atts)"
proof (induction atts arbitrary: w)
  case Nil
  show ?case by simp
next
  case (Cons a rest)
  show ?case
  proof (cases "geo_retryable (geocode address (calls w))")
    case True
    then obtain e where e: "geocode address (calls w) = Raise e" "caught_by_lookup e"
      by (cases "geocode address (calls w)") auto
    let ?w2 = "w\<lparr>calls := Suc (calls w),
             messages := messages w @ [LogWarning a address e (backoff a)],
             sleeps := sleeps w @ [real_of_int (backoff a)]\<rparr>"
    have step: "lookup_postcode_loop geocode address (a # rest) w =
        lookup_postcode_loop geocode address rest ?w2"
      using e by (simp add: Let_def)
    obtain k where k: "k \<le> length rest"
      "sleeps (snd (lookup_postcode_loop geocode address rest ?w2)) =
         sleeps ?w2 @ map (\<lambda>a. real_of_int (backoff a)) (take k rest)"
      using Cons.IH[of ?w2] by blast
    show ?thesis
      by (rule exI[of _ "Suc k"]) (unfold step, use k in simp)
  next
    case False
    have "sleeps (snd (lookup_postcode_loop geocode address (a # rest) w)) = sleeps w"
      using False
      by (cases "geocode address (calls w)") (auto simp: Let_def split: option.splits)
    then show ?thesis by (intro exI[of _ 0]) simp
  qed
qed

lemma check_url_loop_returns:
  "(\<forall>i e. session url i = Raise e \<longrightarrow> is_Exception e) \<Longrightarrow>
   \<exists>out. fst (check_url_loop session rng url atts w) = Inr out"
proof (induction atts arbitrary: w)
  case Nil
  show ?case by simp
next
  case (Cons a rest)
  show ?case
  proof (cases "session url (calls w)")
    case (Return r)
    then show ?thesis using Cons.IH[OF Cons.prems] by (simp add: Let_def)
  next
    case (Raise e)
    then have "is_Exception e" using Cons.prems by blast
    then show ?thesis using Raise Cons.IH[OF Cons.prems] by (simp add: Let_def)
  qed
qed

lemma check_url_loop_result_shape:
  "fst (check_url_loop session rng url atts w) = Inr out \<Longrightarrow>
   out = (None, ''Failed after retries'')
   \<or> (\<exists>code. out = (Some code, RESPONSE_CODES_get code ''Unknown''))"
  by (induction atts arbitrary: w) (auto simp: Let_def split: reply.splits if_splits)

lemma lookup_postcode_loop_returns:
  "(\<forall>i e. geocode address i = Raise e \<longrightarrow> caught_by_lookup e) \<Longrightarrow>
   \<exists>out. fst (lookup_postcode_loop geocode address atts w) = Inr out"
proof (induction atts arbitrary: w)
  case Nil
  show ?case by simp
next
  case (Cons a rest)
  show ?case
  proof (cases "geocode address (calls w)")
    case (Return loc)
    then show ?thesis by (simp add: Let_def split: option.splits)
  next
    case (Raise e)
    then have "caught_by_lookup e" using Cons.prems by blast
    then show ?thesis using Raise Cons.IH[OF Cons.prems] by (simp add: Let_def)
  qed
qed

lemma backoff_upto:
  assumes "k \<le> nat retries"
  shows "map (\<lambda>a. real_of_int (backoff a)) (take k [1..retries]) =
         map (\<lambda>n. real_of_int (min 20 (2 ^ Suc n))) [0..<k]"
proof (rule nth_equalityI)
  show "length (map (\<lambda>a. real_of_int (backoff a)) (take k [1..retries])) =
        length (map (\<lambda>n. real_of_int (min 20 (2 ^ Suc n))) [0..<k])"
    using assms by simp
next
  fix i assume "i < length (map (\<lambda>a. real_of_int (backoff a)) (take k [1..retries]))"
  then have i: "i < k" by simp
  then have "1 + int i \<le> retries" using assms by linarith
  then have "[1..retries] ! i = 1 + int i" by simp
  moreover have "nat (1 + int i) = Suc i" by simp
  ultimately show "map (\<lambda>a. real_of_int (backoff a)) (take k [1..retries]) ! i =
      map (\<lambda>n. real_of_int (min 20 (2 ^ Suc n))) [0..<k] ! i"
    using i assms by (simp add: backoff_def)
qed

lemma sorted_backoff: "sorted (map (\<lambda>n. real_of_int (min 20 (2 ^ Suc n))) [0..<k])"
proof -
  have "\<And>m n :: nat. m \<le> n \<Longrightarrow>
      real_of_int (min 20 (2 ^ Suc m)) \<le> real_of_int (min 20 (2 ^ Suc n))"
  proof -
    fix m n :: nat assume "m \<le> n"
    then have "(2::int) ^ Suc m \<le> 2 ^ Suc n" by (simp add: power_increasing)
    then have "min 20 ((2::int) ^ Suc m) \<le> min 20 (2 ^ Suc n)"
      by (rule min.mono[OF order_refl])
    then show "real_of_int (min 20 (2 ^ Suc m)) \<le> real_of_int (min 20 (2 ^ Suc n))"
      by (simp only: of_int_le_iff)
  qed
  then show ?thesis
    by (simp only: sorted_map) (rule sorted_wrt_mono_rel[OF _ sorted_upt], simp)
qed

section \<open>The loop over the rows\<close>

text \<open>
  Which cell values the test of the loop takes for blank, and what a run of the loop can
  change in the rows.
\<close>

lemma strip_empty_iff: "strip s = [] \<longleftrightarrow> (\<forall>c\<in>set s. isspace c)"
proof
  assume "strip s = []"
  then have "\<forall>x\<in>set (dropWhile isspace s). isspace x"
    by (simp add: strip_def dropWhile_eq_Nil_conv)
  then have "dropWhile isspace s = []"
    using hd_dropWhile[of isspace s] hd_in_set[of "dropWhile isspace s"] by blast
  then show "\<forall>c\<in>set s. isspace c" by (simp add: dropWhile_eq_Nil_conv)
next
  assume "\<forall>c\<in>set s. isspace c"
  then have d: "dropWhile isspace s = []" by (simp add: dropWhile_eq_Nil_conv)
  show "strip s = []" unfolding strip_def d by simp
qed

lemma digits_last: "digits n \<noteq> [] \<and> last (digits n) = char_of (48 + n mod 10)"
  by (subst (1 2) digits.simps) simp

lemma digits_not_blank: "strip (digits n) \<noteq> []"
proof -
  have lt: "n mod 10 < 10" by simp
  then have "(48 + n mod 10) mod 256 = 48 + n mod 10" by simp
  then have "\<not> isspace (char_of (48 + n mod 10))"
    using lt by (auto simp: isspace_def)
  moreover have "last (digits n) \<in> set (digits n)" using digits_last[of n] by simp
  ultimately show ?thesis using digits_last[of n] by (auto simp: strip_empty_iff)
qed

lemma zip_is_blank_iff:
  "zip_is_blank v \<longleftrightarrow>
     v = CNone \<or> v = CInt 0 \<or> v = CBool False \<or> (\<exists>s. v = CStr s \<and> (\<forall>c\<in>set s. isspace c))"
proof (cases v)
  case CNone
  then show ?thesis by (simp add: zip_is_blank_def)
next
  case (CStr s)
  then show ?thesis by (auto simp: zip_is_blank_def strip_empty_iff)
next
  case (CInt n)
  have "strip (py_str (CInt n)) \<noteq> []"
  proof (cases "n < 0")
    case True
    have "\<not> isspace CHR ''-''" by (simp add: isspace_def)
    then show ?thesis using True by (auto simp: strip_empty_iff simp del: digits.simps)
  next
    case False
    then show ?thesis using digits_not_blank by (simp del: digits.simps)
  qed
  then show ?thesis using CInt by (simp add: zip_is_blank_def del: py_str.simps)
next
  case (CBool b)
  have "strip ''True'' \<noteq> []" by (simp add: strip_def isspace_def)
  then show ?thesis using CBool by (auto simp: zip_is_blank_def)
qed

lemma fill_row_skips:
  "\<not> zip_is_blank (zip_value r) \<Longrightarrow> fill_row geocode rng rownum r w = (None, r, w)"
  by (simp add: fill_row_def)

lemma fill_row_cases:
  assumes "fill_row geocode rng rownum r w = (res, r', w')"
  shows "r' = r \<or> row_filled r r'"
proof (cases "zip_is_blank (zip_value r)")
  case False
  then show ?thesis using assms by (simp add: fill_row_def)
next
  case True
  let ?address = "if truthy (full_address r) then full_address r else CStr []"
  obtain out w1 where lk: "lookup_postcode geocode ?address 3 w = (out, w1)"
    by (cases "lookup_postcode geocode ?address 3 w") auto
  show ?thesis
  proof (cases out)
    case (Inl e)
    then show ?thesis using assms True lk by (simp add: fill_row_def Let_def)
  next
    case (Inr postcode)
    then show ?thesis using assms True lk
      by (cases "postcode = []") (auto simp: fill_row_def Let_def row_filled_def)
  qed
qed

lemma fill_rows_frame:
  "fill_rows geocode rng rownum rows w = (res, rows', w') \<Longrightarrow>
   list_all2 (\<lambda>r r'. r' = r \<or> row_filled r r') rows rows'"
proof (induction rows arbitrary: rownum w res rows' w')
  case Nil
  then show ?case by simp
next
  case (Cons r rs)
  obtain res1 r1 w1 where one: "fill_row geocode rng rownum r w = (res1, r1, w1)"
    by (cases "fill_row geocode rng rownum r w") auto
  have r1: "r1 = r \<or> row_filled r r1" by (rule fill_row_cases[OF one])
  show ?case
  proof (cases res1)
    case (Some e)
    then have "rows' = r1 # rs" using Cons.prems one by simp
    then show ?thesis using r1 by (simp add: list_all2_refl)
  next
    case None
    obtain res2 rs2 w2 where two: "fill_rows geocode rng (rownum + 1) rs w1 = (res2, rs2, w2)"
      by (cases "fill_rows geocode rng (rownum + 1) rs w1") auto
    have "rows' = r1 # rs2" using Cons.prems one None two by simp
    then show ?thesis using r1 Cons.IH[OF two] by simp
  qed
qed

lemma fill_rows_nothing_blank:
  "\<forall>r\<in>set rows. \<not> zip_is_blank (zip_value r) \<Longrightarrow>
   fill_rows geocode rng rownum rows w = (None, rows, w)"
  by (induction rows arbitrary: rownum) (simp_all add: fill_row_skips)

section \<open>The claims\<close>

text \<open>
  In what follows the outcomes of the specification are read on the values the code
  returns. For \<open>check_url\<close>, Success is a pair whose first component is the status
  code and Failed is the pair \<open>(None, "Failed after retries")\<close>. For
  \<open>lookup_postcode\<close>, Success is the postcode, and the empty string is returned both
  for Empty and after the last attempt, where \<open>logging.error\<close> is called first.
\<close>

text \<open>
  Claim C2, as stated, fails for \<open>lookup_postcode\<close>: when the geocoder times out on
  all three attempts it returns the same value as when the geocoder finds no postcode.
\<close>

theorem C2_counterexample:
  "fst (lookup_postcode timeout_geocoder ''456 Elm St'' 3 w0) =
   fst (lookup_postcode no_postcode_geocoder ''456 Elm St'' 3 w0)"
  by (simp add: lookup_postcode_def timeout_geocoder_def no_postcode_geocoder_def
      caught_by_lookup_def address_dict_def w0_def upto_rec1 Let_def)

text \<open>
  Claim C2, amended. After its last attempt \<open>check_url\<close> returns
  \<open>(None, "Failed after retries")\<close>, and every other result it returns is a status
  code with its name. \<open>lookup_postcode\<close> returns the empty string both after its last attempt and when a
  call yields no postcode; the two cases differ in the error it logs, not in the value.
\<close>

theorem C2_failure_values:
  assumes "\<forall>i<nat max_attempts. url_retryable (session url (calls w + i))"
    and "\<forall>i<nat max_attempts. geo_retryable (geocode address (calls v + i))"
    and "1 \<le> max_attempts"
    and "geocode' address (calls v) = Return loc"
    and "loc = None \<or> (\<exists>l. loc = Some l \<and> address_dict l ''postcode'' = None)"
  shows "fst (check_url session rng url max_attempts w) = Inr (None, ''Failed after retries'')
     \<and> fst (lookup_postcode geocode address max_attempts v) = Inr []
     \<and> last (messages (snd (lookup_postcode geocode address max_attempts v))) = LogError address
     \<and> fst (lookup_postcode geocode' address max_attempts v) = Inr []
     \<and> messages (snd (lookup_postcode geocode' address max_attempts v)) = messages v
     \<and> (\<forall>out. fst (check_url session' rng' url' retries' u) = Inr out \<longrightarrow>
           out = (None, ''Failed after retries'')
           \<or> (\<exists>code. out = (Some code, RESPONSE_CODES_get code ''Unknown'')))"
proof -
  have shape: "\<forall>out. fst (check_url session' rng' url' retries' u) = Inr out \<longrightarrow>
           out = (None, ''Failed after retries'')
           \<or> (\<exists>code. out = (Some code, RESPONSE_CODES_get code ''Unknown''))"
  proof (intro allI impI)
    fix out assume "fst (check_url session' rng' url' retries' u) = Inr out"
    then show "out = (None, ''Failed after retries'')
        \<or> (\<exists>code. out = (Some code, RESPONSE_CODES_get code ''Unknown''))"
      unfolding check_url_def by (rule check_url_loop_result_shape)
  qed
  have len: "0 < length [1..max_attempts]" using assms(3) by simp
  have val: "(case loc of None \<Rightarrow> [] | Some l \<Rightarrow>
                  (case address_dict l ''postcode'' of None \<Rightarrow> [] | Some pc \<Rightarrow> pc)) = []"
    using assms(5) by auto
  have nd: "fst (lookup_postcode_loop geocode' address [1..max_attempts] v) = Inr []
      \<and> messages (snd (lookup_postcode_loop geocode' address [1..max_attempts] v)) = messages v"
    using lookup_postcode_loop_answer[of 0 "[1..max_attempts]" geocode' address v loc]
      len assms(4) val
    by simp
  have main: "fst (check_url session rng url max_attempts w) = Inr (None, ''Failed after retries'')
     \<and> fst (lookup_postcode geocode address max_attempts v) = Inr []
     \<and> last (messages (snd (lookup_postcode geocode address max_attempts v))) = LogError address
     \<and> fst (lookup_postcode geocode' address max_attempts v) = Inr []
     \<and> messages (snd (lookup_postcode geocode' address max_attempts v)) = messages v"
    unfolding check_url_def lookup_postcode_def
    using check_url_loop_exhausted[of "[1..max_attempts]" session url w rng]
      lookup_postcode_loop_exhausted[of "[1..max_attempts]" geocode address v] assms(1,2) nd
    by simp
  show ?thesis using main shape by (elim conjE, intro conjI) assumption+
qed

theorem C2_witness:
  "fst (check_url always_429 rng_half ''http://example.com'' 3 w0) = Inr (None, ''Failed after retries'')
   \<and> fst (lookup_postcode timeout_geocoder ''456 Elm St'' 3 w0) = Inr []
   \<and> last (messages (snd (lookup_postcode timeout_geocoder ''456 Elm St'' 3 w0))) = LogError ''456 Elm St''
   \<and> fst (lookup_postcode no_postcode_geocoder ''456 Elm St'' 3 w0) = Inr []
   \<and> messages (snd (lookup_postcode no_postcode_geocoder ''456 Elm St'' 3 w0)) = messages w0"
proof -
  have h1: "\<forall>i<nat 3. url_retryable (always_429 ''http://example.com'' (calls (w0 :: string world) + i))"
    by (simp add: always_429_def soft_failure_def)
  have h2: "\<forall>i<nat 3. geo_retryable (timeout_geocoder ''456 Elm St'' (calls (w0 :: string world) + i))"
    by (simp add: timeout_geocoder_def caught_by_lookup_def)
  have h3: "(1 :: int) \<le> 3" by simp
  have h4: "no_postcode_geocoder ''456 Elm St'' (calls (w0 :: string world))
      = Return (Some (Location (Some [''city'' \<mapsto> ''Springfield''])))"
    by (simp add: no_postcode_geocoder_def)
  have h5: "Some (Location (Some [''city'' \<mapsto> ''Springfield''])) = None
      \<or> (\<exists>l. Some (Location (Some [''city'' \<mapsto> ''Springfield''])) = Some l
            \<and> address_dict l ''postcode'' = None)"
    by (simp add: address_dict_def)
  show ?thesis
    using C2_failure_values[where session = always_429 and url = "''http://example.com''"
        and w = w0 and max_attempts = 3 and geocode = timeout_geocoder
        and address = "''456 Elm St''" and v = w0 and geocode' = no_postcode_geocoder
        and loc = "Some (Location (Some [''city'' \<mapsto> ''Springfield'']))" and rng = rng_half
        and session' = always_429 and rng' = rng_half and url' = "''http://example.com''"
        and retries' = 3 and u = w0, OF h1 h2 h3 h4 h5]
    by (elim conjE, intro conjI) assumption+
qed

text \<open>
  Claim C3. If the transport gives a retryable reply to every call, the lookup makes
  exactly \<open>max_attempts\<close> calls and then returns its failure value: \<open>check_url\<close>
  the pair \<open>(None, "Failed after retries")\<close>, \<open>lookup_postcode\<close> the empty
  string after logging the error. The number of calls is \<open>nat max_attempts\<close>, which is
  \<open>max_attempts\<close> for the counts \<open>\<ge> 1\<close> of the specification (and 0 below).
\<close>

theorem C3_exactly_max_attempts_then_failed:
  assumes "\<forall>i<nat max_attempts. url_retryable (session url (calls w + i))"
    and "\<forall>i<nat max_attempts. geo_retryable (geocode address (calls v + i))"
  shows "fst (check_url session rng url max_attempts w) = Inr (None, ''Failed after retries'')
     \<and> calls (snd (check_url session rng url max_attempts w)) = calls w + nat max_attempts
     \<and> fst (lookup_postcode geocode address max_attempts v) = Inr []
     \<and> last (messages (snd (lookup_postcode geocode address max_attempts v))) = LogError address
     \<and> calls (snd (lookup_postcode geocode address max_attempts v)) = calls v + nat max_attempts"
proof -
  have len: "length [1..max_attempts] = nat max_attempts" by simp
  show ?thesis
    unfolding check_url_def lookup_postcode_def
    using check_url_loop_exhausted[of "[1..max_attempts]" session url w rng]
      lookup_postcode_loop_exhausted[of "[1..max_attempts]" geocode address v] assms
    by simp
qed

theorem C3_witness:
  "fst (check_url always_429 rng_half ''http://example.com'' 3 w0) = Inr (None, ''Failed after retries'')
   \<and> calls (snd (check_url always_429 rng_half ''http://example.com'' 3 w0)) = 3
   \<and> fst (lookup_postcode timeout_geocoder ''456 Elm St'' 3 w0) = Inr []
   \<and> last (messages (snd (lookup_postcode timeout_geocoder ''456 Elm St'' 3 w0))) = LogError ''456 Elm St''
   \<and> calls (snd (lookup_postcode timeout_geocoder ''456 Elm St'' 3 w0)) = 3"
proof -
  have h1: "\<forall>i<nat 3. url_retryable (always_429 ''http://example.com'' (calls (w0 :: string world) + i))"
    by (simp add: always_429_def soft_failure_def)
  have h2: "\<forall>i<nat 3. geo_retryable (timeout_geocoder ''456 Elm St'' (calls (w0 :: string world) + i))"
    by (simp add: timeout_geocoder_def caught_by_lookup_def)
  show ?thesis
    using C3_exactly_max_attempts_then_failed[where session = always_429
        and url = "''http://example.com''" and w = w0 and max_attempts = 3
        and geocode = timeout_geocoder and address = "''456 Elm St''" and v = w0
        and rng = rng_half] h1 h2
    by (simp add: w0_def)
qed

text \<open>
  Claim C4. If the transport gives a retryable reply exactly \<open>k\<close> times, with
  \<open>k < max_attempts\<close>, and then a success (a response that is no soft failure; a
  location with a postcode), the lookup returns that success after \<open>k + 1\<close> calls and
  \<open>k\<close> sleeps: the sleeps made before are a prefix of the sleeps after, \<open>k\<close> longer.
  For \<open>k = 0\<close> the first attempt succeeds and nothing is slept.
\<close>

theorem C4_success_after_k_retries:
  assumes "int k < max_attempts"
    and "\<forall>i<k. url_retryable (session url (calls w + i))"
    and "session url (calls w + k) = Return r" and "\<not> soft_failure r"
    and "\<forall>i<k. geo_retryable (geocode address (calls v + i))"
    and "geocode address (calls v + k) = Return (Some loc)"
    and "address_dict loc ''postcode'' = Some postcode"
  shows "fst (check_url session rng url max_attempts w) =
           Inr (Some (status_code r), RESPONSE_CODES_get (status_code r) ''Unknown'')
     \<and> calls (snd (check_url session rng url max_attempts w)) = calls w + k + 1
     \<and> length (sleeps (snd (check_url session rng url max_attempts w))) = length (sleeps w) + k
     \<and> take (length (sleeps w)) (sleeps (snd (check_url session rng url max_attempts w))) = sleeps w
     \<and> fst (lookup_postcode geocode address max_attempts v) = Inr postcode
     \<and> calls (snd (lookup_postcode geocode address max_attempts v)) = calls v + k + 1
     \<and> length (sleeps (snd (lookup_postcode geocode address max_attempts v))) = length (sleeps v) + k
     \<and> take (length (sleeps v)) (sleeps (snd (lookup_postcode geocode address max_attempts v))) = sleeps v"
proof -
  have len: "k < length [1..max_attempts]" using assms(1) by simp
  have a: "fst (check_url_loop session rng url [1..max_attempts] w) =
           Inr (Some (status_code r), RESPONSE_CODES_get (status_code r) ''Unknown'')
     \<and> calls (snd (check_url_loop session rng url [1..max_attempts] w)) = calls w + k + 1
     \<and> length (sleeps (snd (check_url_loop session rng url [1..max_attempts] w))) = length (sleeps w) + k
     \<and> take (length (sleeps w)) (sleeps (snd (check_url_loop session rng url [1..max_attempts] w))) = sleeps w"
    using check_url_loop_success[of k "[1..max_attempts]" session url w r rng] len assms(2,3,4)
    by blast
  have b: "fst (lookup_postcode_loop geocode address [1..max_attempts] v) = Inr postcode
     \<and> calls (snd (lookup_postcode_loop geocode address [1..max_attempts] v)) = calls v + k + 1
     \<and> sleeps (snd (lookup_postcode_loop geocode address [1..max_attempts] v)) =
           sleeps v @ map (\<lambda>a. real_of_int (backoff a)) (take k [1..max_attempts])"
    using lookup_postcode_loop_answer[of k "[1..max_attempts]" geocode address v "Some loc"]
      len assms(5,6,7)
    by simp
  have lt: "length (take k [1..max_attempts]) = k" using len by simp
  show ?thesis unfolding check_url_def lookup_postcode_def
    using a b lt by simp
qed

theorem C4_witness:
  "fst (check_url twice_429_then_200 rng_half ''http://example.com'' 3 w0) = Inr (Some 200, ''OK'')
   \<and> calls (snd (check_url twice_429_then_200 rng_half ''http://example.com'' 3 w0)) = 3
   \<and> length (sleeps (snd (check_url twice_429_then_200 rng_half ''http://example.com'' 3 w0))) = 2
   \<and> fst (lookup_postcode flaky_geocoder ''123 Main St'' 3 w0) = Inr ''90210''
   \<and> calls (snd (lookup_postcode flaky_geocoder ''123 Main St'' 3 w0)) = 3
   \<and> length (sleeps (snd (lookup_postcode flaky_geocoder ''123 Main St'' 3 w0))) = 2"
proof -
  have h1: "int 2 < 3" by simp
  have h2: "\<forall>i<2. url_retryable (twice_429_then_200 ''http://example.com'' (calls (w0 :: string world) + i))"
    by (simp add: twice_429_then_200_def soft_failure_def w0_def)
  have h3: "twice_429_then_200 ''http://example.com'' (calls (w0 :: string world) + 2)
      = Return \<lparr>status_code = 200, rtext = Some ''hello''\<rparr>"
    by (simp add: twice_429_then_200_def w0_def)
  have h4: "\<not> soft_failure \<lparr>status_code = 200, rtext = Some ''hello''\<rparr>"
    by code_simp
  have h5: "\<forall>i<2. geo_retryable (flaky_geocoder ''123 Main St'' (calls (w0 :: string world) + i))"
    by (simp add: flaky_geocoder_def caught_by_lookup_def w0_def)
  have h6: "flaky_geocoder ''123 Main St'' (calls (w0 :: string world) + 2)
      = Return (Some (Location (Some [''postcode'' \<mapsto> ''90210''])))"
    by (simp add: flaky_geocoder_def w0_def)
  have h7: "address_dict (Location (Some [''postcode'' \<mapsto> ''90210''])) ''postcode'' = Some ''90210''"
    by (simp add: address_dict_def)
  have rc: "RESPONSE_CODES_get 200 ''Unknown'' = ''OK''"
    by (simp add: RESPONSE_CODES_get_def RESPONSE_CODES_def)
  show ?thesis
    using C4_success_after_k_retries[where k = 2 and max_attempts = 3
        and session = twice_429_then_200 and url = "''http://example.com''" and w = w0
        and r = "\<lparr>status_code = 200, rtext = Some ''hello''\<rparr>"
        and geocode = flaky_geocoder and address = "''123 Main St''" and v = w0
        and loc = "Location (Some [''postcode'' \<mapsto> ''90210''])" and postcode = "''90210''"
        and rng = rng_half] h1 h2 h3 h4 h5 h6 h7 rc
    by (simp add: w0_def)
qed

text \<open>
  Claim C7. When a call of the geocoder completes without a postcode (no location, or a
  location whose address has no \<open>postcode\<close> key), \<open>lookup_postcode\<close> returns the
  empty string at once: that call is its last, and no sleep follows it. After \<open>k\<close>
  retryable replies it has made \<open>k + 1\<close> calls and \<open>k\<close> sleeps; on the first attempt
  the only effect is the one call.
\<close>

theorem C7_no_data_is_immediate:
  assumes "int k < retries"
    and "\<forall>i<k. geo_retryable (geocode address (calls w + i))"
    and "geocode address (calls w + k) = Return loc"
    and "loc = None \<or> (\<exists>l. loc = Some l \<and> address_dict l ''postcode'' = None)"
  shows "fst (lookup_postcode geocode address retries w) = Inr []
     \<and> calls (snd (lookup_postcode geocode address retries w)) = calls w + k + 1
     \<and> length (sleeps (snd (lookup_postcode geocode address retries w))) = length (sleeps w) + k
     \<and> take (length (sleeps w)) (sleeps (snd (lookup_postcode geocode address retries w))) = sleeps w
     \<and> (k = 0 \<longrightarrow> snd (lookup_postcode geocode address retries w) = w\<lparr>calls := Suc (calls w)\<rparr>)"
proof -
  have len: "k < length [1..retries]" using assms(1) by simp
  have lt: "length (take k [1..retries]) = k" using len by simp
  have val: "(case loc of None \<Rightarrow> [] | Some l \<Rightarrow>
                  (case address_dict l ''postcode'' of None \<Rightarrow> [] | Some pc \<Rightarrow> pc)) = []"
    using assms(4) by auto
  have b: "fst (lookup_postcode_loop geocode address [1..retries] w) = Inr []
     \<and> calls (snd (lookup_postcode_loop geocode address [1..retries] w)) = calls w + k + 1
     \<and> sleeps (snd (lookup_postcode_loop geocode address [1..retries] w)) =
           sleeps w @ map (\<lambda>a. real_of_int (backoff a)) (take k [1..retries])"
    using lookup_postcode_loop_answer[of k "[1..retries]" geocode address w loc]
      len assms(2,3) val
    by simp
  have first: "k = 0 \<longrightarrow> lookup_postcode_loop geocode address [1..retries] w =
      (Inr [], w\<lparr>calls := Suc (calls w)\<rparr>)"
  proof
    assume k0: "k = 0"
    then have r: "1 \<le> retries" using assms(1) by simp
    have u: "[1..retries] = 1 # [2..retries]" using r by (simp add: upto_rec1)
    show "lookup_postcode_loop geocode address [1..retries] w = (Inr [], w\<lparr>calls := Suc (calls w)\<rparr>)"
      using assms(3,4) k0 by (auto simp: u Let_def)
  qed
  show ?thesis unfolding lookup_postcode_def using b lt first by simp
qed

theorem C7_witness:
  "fst (lookup_postcode no_postcode_geocoder ''123 Main St'' 3 w0) = Inr []
   \<and> snd (lookup_postcode no_postcode_geocoder ''123 Main St'' 3 w0) = w0\<lparr>calls := 1\<rparr>
   \<and> fst (lookup_postcode flaky_no_postcode_geocoder ''123 Main St'' 3 w0) = Inr []
   \<and> calls (snd (lookup_postcode flaky_no_postcode_geocoder ''123 Main St'' 3 w0)) = 2
   \<and> length (sleeps (snd (lookup_postcode flaky_no_postcode_geocoder ''123 Main St'' 3 w0))) = 1"
proof -
  have a1: "int 0 < 3" by simp
  have a2: "\<forall>i<0. geo_retryable (no_postcode_geocoder ''123 Main St'' (calls (w0 :: string world) + i))"
    by simp
  have a3: "no_postcode_geocoder ''123 Main St'' (calls (w0 :: string world) + 0)
      = Return (Some (Location (Some [''city'' \<mapsto> ''Springfield''])))"
    by (simp add: no_postcode_geocoder_def)
  have a4: "Some (Location (Some [''city'' \<mapsto> ''Springfield''])) = None
      \<or> (\<exists>l. Some (Location (Some [''city'' \<mapsto> ''Springfield''])) = Some l
            \<and> address_dict l ''postcode'' = None)"
    by (simp add: address_dict_def)
  have b1: "int 1 < 3" by simp
  have b2: "\<forall>i<1. geo_retryable (flaky_no_postcode_geocoder ''123 Main St'' (calls (w0 :: string world) + i))"
    by (simp add: flaky_no_postcode_geocoder_def caught_by_lookup_def w0_def)
  have b3: "flaky_no_postcode_geocoder ''123 Main St'' (calls (w0 :: string world) + 1) = Return None"
    by (simp add: flaky_no_postcode_geocoder_def w0_def)
  have b4: "(None :: location option) = None \<or> (\<exists>l. None = Some l \<and> address_dict l ''postcode'' = None)"
    by simp
  show ?thesis
    using C7_no_data_is_immediate[where k = 0 and retries = 3 and geocode = no_postcode_geocoder
        and address = "''123 Main St''" and w = w0
        and loc = "Some (Location (Some [''city'' \<mapsto> ''Springfield'']))"] a1 a2 a3 a4
      C7_no_data_is_immediate[where k = 1 and retries = 3 and geocode = flaky_no_postcode_geocoder
        and address = "''123 Main St''" and w = w0 and loc = None] b1 b2 b3 b4
    by (simp add: w0_def)
qed

text \<open>
  Claim C8. Whenever \<open>check_url\<close> returns a status code, the code is neither 429 nor
  503, and it is the code of the response to the last call, whose body, in lower case,
  does not contain \<open>captcha\<close>.
\<close>

theorem C8_success_is_never_a_retry_signal:
  assumes "check_url session rng url max_retries w = (Inr (Some code, msg), w')"
  shows "code \<noteq> 429 \<and> code \<noteq> 503
     \<and> calls w < calls w'
     \<and> (\<exists>r. session url (calls w' - 1) = Return r \<and> status_code r = code
            \<and> \<not> py_in ''captcha'' (lower (text_or_empty (rtext r))))"
  using check_url_loop_success_origin[of session rng url "[1..max_retries]" w code msg w'] assms
  unfolding check_url_def soft_failure_def by auto

theorem C8_witness:
  "fst (check_url twice_429_then_200 rng_half ''http://example.com'' 3 w0) = Inr (Some 200, ''OK'')
   \<and> (200 :: int) \<noteq> 429 \<and> (200 :: int) \<noteq> 503
   \<and> twice_429_then_200 ''http://example.com'' 2 = Return \<lparr>status_code = 200, rtext = Some ''hello''\<rparr>
   \<and> \<not> py_in ''captcha'' (lower (text_or_empty (Some ''hello'')))"
proof -
  have ns: "\<not> soft_failure \<lparr>status_code = 200, rtext = Some ''hello''\<rparr>" by code_simp
  have h: "check_url twice_429_then_200 rng_half ''http://example.com'' 3 w0 =
      (Inr (Some 200, ''OK''),
       \<lparr>calls = 3, draws = 2, sleeps = [15/2, 15/2],
        messages = [PrintEncountered 429 ''http://example.com'' (15/2),
                    PrintEncountered 429 ''http://example.com'' (15/2)]\<rparr>)"
    using ns
    by (simp add: check_url_def twice_429_then_200_def w0_def upto_rec1 Let_def
        soft_failure_def uniform_def rng_half_def RESPONSE_CODES_get_def RESPONSE_CODES_def)
  show ?thesis
    using C8_success_is_never_a_retry_signal[OF h] h
    by (simp add: twice_429_then_200_def)
qed

text \<open>
  Claim C10. When every permitted attempt meets a retryable condition, the sleep is
  made after the last attempt too: the lookup sleeps as many times as it calls the
  transport, \<open>max_attempts\<close> times and not \<open>max_attempts - 1\<close>; for
  \<open>lookup_postcode\<close> the sleeps are the backoff of each attempt from 1 to
  \<open>max_attempts\<close>.
\<close>

theorem C10_sleep_after_last_attempt:
  assumes "\<forall>i<nat max_attempts. url_retryable (session url (calls w + i))"
    and "\<forall>i<nat max_attempts. geo_retryable (geocode address (calls v + i))"
  shows "length (sleeps (snd (check_url session rng url max_attempts w))) =
           length (sleeps w) + nat max_attempts
     \<and> calls (snd (check_url session rng url max_attempts w)) = calls w + nat max_attempts
     \<and> sleeps (snd (lookup_postcode geocode address max_attempts v)) =
           sleeps v @ map (\<lambda>a. real_of_int (backoff a)) [1..max_attempts]
     \<and> length (sleeps (snd (lookup_postcode geocode address max_attempts v))) =
           length (sleeps v) + nat max_attempts
     \<and> calls (snd (lookup_postcode geocode address max_attempts v)) = calls v + nat max_attempts"
  unfolding check_url_def lookup_postcode_def
  using check_url_loop_exhausted[of "[1..max_attempts]" session url w rng]
    lookup_postcode_loop_exhausted[of "[1..max_attempts]" geocode address v] assms
  by simp

theorem C10_witness:
  "length (sleeps (snd (check_url always_429 rng_half ''http://example.com'' 3 w0))) = 3
   \<and> sleeps (snd (lookup_postcode timeout_geocoder ''456 Elm St'' 3 w0)) = [2, 4, 8]"
proof -
  have h1: "\<forall>i<nat 3. url_retryable (always_429 ''http://example.com'' (calls (w0 :: string world) + i))"
    by (simp add: always_429_def soft_failure_def)
  have h2: "\<forall>i<nat 3. geo_retryable (timeout_geocoder ''456 Elm St'' (calls (w0 :: string world) + i))"
    by (simp add: timeout_geocoder_def caught_by_lookup_def)
  show ?thesis
    using C10_sleep_after_last_attempt[where session = always_429
        and url = "''http://example.com''" and w = w0 and max_attempts = 3
        and geocode = timeout_geocoder and address = "''456 Elm St''" and v = w0
        and rng = rng_half] h1 h2
    by (simp add: w0_def upto_rec1 backoff_def)
qed

text \<open>
  Claim C1, as stated, fails for \<open>lookup_postcode\<close>: an exception that its
  \<open>except\<close> clause does not name (here the geocoder's quota error) leaves the function.
\<close>

theorem C1_counterexample:
  "fst (lookup_postcode quota_geocoder ''456 Elm St'' 3 w0) =
     Inl (OtherException ''GeocoderQuotaExceeded'')"
  by (simp add: lookup_postcode_def quota_geocoder_def caught_by_lookup_def w0_def upto_rec1 Let_def)

text \<open>
  Claim C1, amended. \<open>check_url\<close> returns a result whenever the transport returns
  responses or raises subclasses of \<open>Exception\<close>; \<open>lookup_postcode\<close> returns a
  result whenever every exception the geocoder raises is \<open>GeocoderTimedOut\<close>,
  \<open>GeocoderUnavailable\<close> or \<open>RequestException\<close>.
\<close>

theorem C1_caught_exceptions_never_propagate:
  assumes "\<forall>i e. session url i = Raise e \<longrightarrow> is_Exception e"
    and "\<forall>i e. geocode address i = Raise e \<longrightarrow> caught_by_lookup e"
  shows "(\<exists>out. fst (check_url session rng url max_retries w) = Inr out)
     \<and> (\<exists>postcode. fst (lookup_postcode geocode address retries v) = Inr postcode)"
  unfolding check_url_def lookup_postcode_def
  using check_url_loop_returns[of session url rng "[1..max_retries]" w] assms(1)
    lookup_postcode_loop_returns[of geocode address "[1..retries]" v] assms(2)
  by blast

theorem C1_witness:
  "fst (check_url always_429 rng_half ''http://example.com'' 3 w0) =
     Inr (None, ''Failed after retries'')
   \<and> fst (lookup_postcode timeout_geocoder ''456 Elm St'' 3 w0) = Inr []"
proof -
  have h1: "\<forall>i e. always_429 ''http://example.com'' i = Raise e \<longrightarrow> is_Exception e"
    by (simp add: always_429_def)
  have h2: "\<forall>i e. timeout_geocoder ''456 Elm St'' i = Raise e \<longrightarrow> caught_by_lookup e"
    by (simp add: timeout_geocoder_def caught_by_lookup_def)
  show ?thesis
    using C1_caught_exceptions_never_propagate[where session = always_429
        and url = "''http://example.com''" and geocode = timeout_geocoder
        and address = "''456 Elm St''" and rng = rng_half and max_retries = 3 and retries = 3
        and w = w0 and v = w0] h1 h2
    by (simp add: check_url_def always_429_def soft_failure_def lookup_postcode_def
        timeout_geocoder_def caught_by_lookup_def w0_def upto_rec1 Let_def)
qed

text \<open>
  Claim C5, as stated, fails in its only-if part: \<open>check_url\<close> retries after any
  \<open>Exception\<close>, also one that is no transport-level error. A call that raises
  \<open>ValueError\<close> is followed by a sleep and a second attempt, whose response is returned.
\<close>

theorem C5_counterexample:
  "value_error_then_200 ''http://example.com'' 0 = Raise (OtherException ''ValueError'')
   \<and> \<not> transport_level_error (OtherException ''ValueError'')
   \<and> check_url value_error_then_200 rng_half ''http://example.com'' 3 w0 =
       (Inr (Some 200, ''OK''),
        \<lparr>calls = 2, draws = 1, sleeps = [3],
         messages = [PrintError ''http://example.com'' (OtherException ''ValueError'')]\<rparr>)"
proof -
  have ns: "\<not> soft_failure \<lparr>status_code = 200, rtext = Some ''hello''\<rparr>" by code_simp
  have run: "check_url value_error_then_200 rng_half ''http://example.com'' 3 w0 =
       (Inr (Some 200, ''OK''),
        \<lparr>calls = 2, draws = 1, sleeps = [3],
         messages = [PrintError ''http://example.com'' (OtherException ''ValueError'')]\<rparr>)"
    using ns
    by (simp add: check_url_def value_error_then_200_def w0_def upto_rec1 Let_def
        uniform_def rng_half_def RESPONSE_CODES_get_def RESPONSE_CODES_def)
  show ?thesis
    using run by (simp add: value_error_then_200_def transport_level_error_def)
qed

text \<open>
  Claim C5, amended. An attempt of \<open>check_url\<close> is retried if and only if the call
  raised an exception of any subclass of \<open>Exception\<close> (transport-level or not) or
  returned a soft failure: status 429 or 503, or a body that contains \<open>captcha\<close> once in
  lower case. A retried attempt makes one draw, writes one message, sleeps once and hands
  the remaining attempts the world so changed; every other response ends the loop at once
  with its status code, the call being the only effect; an exception that is no
  \<open>Exception\<close> leaves the function. The loop is taken at any of its attempts.
\<close>

theorem C5_retryable_classification:
  "(length (sleeps w) < length (sleeps (snd (check_url_loop session rng url (attempt # rest) w)))
      \<longleftrightarrow> (\<exists>e. session url (calls w) = Raise e \<and> is_Exception e)
        \<or> (\<exists>r. session url (calls w) = Return r
              \<and> (status_code r = 429 \<or> status_code r = 503
                  \<or> py_in ''captcha'' (lower (text_or_empty (rtext r))))))
   \<and> (\<forall>e. session url (calls w) = Raise e \<and> is_Exception e
         \<longrightarrow> check_url_loop session rng url (attempt # rest) w =
               check_url_loop session rng url rest
                 (w\<lparr>calls := Suc (calls w), draws := Suc (draws w),
                    messages := messages w @ [PrintError url e],
                    sleeps := sleeps w @ [uniform 2 4 (rng (draws w))]\<rparr>))
   \<and> (\<forall>r. session url (calls w) = Return r
           \<and> (status_code r = 429 \<or> status_code r = 503
                \<or> py_in ''captcha'' (lower (text_or_empty (rtext r))))
         \<longrightarrow> check_url_loop session rng url (attempt # rest) w =
               check_url_loop session rng url rest
                 (w\<lparr>calls := Suc (calls w), draws := Suc (draws w),
                    messages := messages w @
                      [PrintEncountered (status_code r) url (uniform 5 10 (rng (draws w)))],
                    sleeps := sleeps w @ [uniform 5 10 (rng (draws w))]\<rparr>))
   \<and> (\<forall>r. session url (calls w) = Return r
           \<and> status_code r \<noteq> 429 \<and> status_code r \<noteq> 503
           \<and> \<not> py_in ''captcha'' (lower (text_or_empty (rtext r)))
         \<longrightarrow> check_url_loop session rng url (attempt # rest) w =
               (Inr (Some (status_code r), RESPONSE_CODES_get (status_code r) ''Unknown''),
                w\<lparr>calls := Suc (calls w)\<rparr>))
   \<and> (\<forall>e. session url (calls w) = Raise e \<and> \<not> is_Exception e
         \<longrightarrow> check_url_loop session rng url (attempt # rest) w =
               (Inl e, w\<lparr>calls := Suc (calls w)\<rparr>))"
proof -
  have raised: "\<forall>e. session url (calls w) = Raise e \<and> is_Exception e
         \<longrightarrow> check_url_loop session rng url (attempt # rest) w =
               check_url_loop session rng url rest
                 (w\<lparr>calls := Suc (calls w), draws := Suc (draws w),
                    messages := messages w @ [PrintError url e],
                    sleeps := sleeps w @ [uniform 2 4 (rng (draws w))]\<rparr>)"
    by (simp add: Let_def)
  have soft: "\<forall>r. session url (calls w) = Return r
           \<and> (status_code r = 429 \<or> status_code r = 503
                \<or> py_in ''captcha'' (lower (text_or_empty (rtext r))))
         \<longrightarrow> check_url_loop session rng url (attempt # rest) w =
               check_url_loop session rng url rest
                 (w\<lparr>calls := Suc (calls w), draws := Suc (draws w),
                    messages := messages w @
                      [PrintEncountered (status_code r) url (uniform 5 10 (rng (draws w)))],
                    sleeps := sleeps w @ [uniform 5 10 (rng (draws w))]\<rparr>)"
    by (simp add: Let_def soft_failure_def)
  have terminal: "\<forall>r. session url (calls w) = Return r
           \<and> status_code r \<noteq> 429 \<and> status_code r \<noteq> 503
           \<and> \<not> py_in ''captcha'' (lower (text_or_empty (rtext r)))
         \<longrightarrow> check_url_loop session rng url (attempt # rest) w =
               (Inr (Some (status_code r), RESPONSE_CODES_get (status_code r) ''Unknown''),
                w\<lparr>calls := Suc (calls w)\<rparr>)"
    by (simp add: Let_def soft_failure_def)
  have passes: "\<forall>e. session url (calls w) = Raise e \<and> \<not> is_Exception e
         \<longrightarrow> check_url_loop session rng url (attempt # rest) w =
               (Inl e, w\<lparr>calls := Suc (calls w)\<rparr>)"
    by (simp add: Let_def)
  have grows: "\<And>w2 d. sleeps w2 = sleeps w @ [d] \<Longrightarrow>
      length (sleeps w) < length (sleeps (snd (check_url_loop session rng url rest w2)))"
  proof -
    fix w2 :: "'a world" and d assume w2: "sleeps w2 = sleeps w @ [d]"
    obtain ds where "sleeps (snd (check_url_loop session rng url rest w2)) = sleeps w2 @ ds"
      using check_url_loop_sleeps[of session rng url rest w2] by blast
    then show "length (sleeps w) < length (sleeps (snd (check_url_loop session rng url rest w2)))"
      by (simp add: w2)
  qed
  have iff: "length (sleeps w) < length (sleeps (snd (check_url_loop session rng url (attempt # rest) w)))
      \<longleftrightarrow> (\<exists>e. session url (calls w) = Raise e \<and> is_Exception e)
        \<or> (\<exists>r. session url (calls w) = Return r
              \<and> (status_code r = 429 \<or> status_code r = 503
                  \<or> py_in ''captcha'' (lower (text_or_empty (rtext r)))))"
  proof (cases "session url (calls w)")
    case (Return r)
    show ?thesis
    proof (cases "status_code r = 429 \<or> status_code r = 503
                \<or> py_in ''captcha'' (lower (text_or_empty (rtext r)))")
      case True
      note eq = soft[rule_format, OF conjI[OF Return True]]
      have "length (sleeps w) < length (sleeps (snd (check_url_loop session rng url (attempt # rest) w)))"
        unfolding eq by (rule grows) simp
      then show ?thesis using Return True by simp
    next
      case False
      have "sleeps (snd (check_url_loop session rng url (attempt # rest) w)) = sleeps w"
        using terminal Return False by simp
      then show ?thesis using Return False by simp
    qed
  next
    case (Raise e)
    show ?thesis
    proof (cases "is_Exception e")
      case True
      note eq = raised[rule_format, OF conjI[OF Raise True]]
      have "length (sleeps w) < length (sleeps (snd (check_url_loop session rng url (attempt # rest) w)))"
        unfolding eq by (rule grows) simp
      then show ?thesis using Raise True by simp
    next
      case False
      have "sleeps (snd (check_url_loop session rng url (attempt # rest) w)) = sleeps w"
        using passes Raise False by simp
      then show ?thesis using Raise False by simp
    qed
  qed
  show ?thesis by (intro conjI iff raised soft terminal passes)
qed

theorem C5_witness:
  "py_in ''captcha'' (lower (text_or_empty (Some ''Solve this CAPTCHA'')))
   \<and> length (sleeps (w0 :: string world))
       < length (sleeps (snd (check_url_loop captcha_page rng_half ''http://example.com'' [1, 2, 3] w0)))
   \<and> check_url_loop twice_429_then_200 rng_half ''http://example.com'' [3] (w0\<lparr>calls := 2\<rparr>) =
       (Inr (Some 200, ''OK''), w0\<lparr>calls := 3\<rparr>)
   \<and> check_url_loop value_error_then_200 rng_half ''http://example.com'' [1, 2, 3] w0 =
       check_url_loop value_error_then_200 rng_half ''http://example.com'' [2, 3]
         \<lparr>calls = 1, draws = 1, sleeps = [3],
          messages = [PrintError ''http://example.com'' (OtherException ''ValueError'')]\<rparr>"
proof -
  have cap: "py_in ''captcha'' (lower (text_or_empty (Some ''Solve this CAPTCHA'')))"
    by code_simp
  have nocap: "\<not> py_in ''captcha'' (lower (text_or_empty (Some ''hello'')))"
    by code_simp
  have rc: "RESPONSE_CODES_get 200 ''Unknown'' = ''OK''"
    by (simp add: RESPONSE_CODES_get_def RESPONSE_CODES_def)
  have a: "length (sleeps (w0 :: string world))
       < length (sleeps (snd (check_url_loop captcha_page rng_half ''http://example.com'' [1, 2, 3] w0)))"
    using C5_retryable_classification[where session = captcha_page and rng = rng_half
        and url = "''http://example.com''" and attempt = 1 and rest = "[2, 3]" and w = w0,
        THEN conjunct1] cap
    by (simp add: captcha_page_def)
  have b: "check_url_loop twice_429_then_200 rng_half ''http://example.com'' [3] (w0\<lparr>calls := 2\<rparr>) =
       (Inr (Some 200, ''OK''), w0\<lparr>calls := 3\<rparr>)"
    using C5_retryable_classification[where session = twice_429_then_200 and rng = rng_half
        and url = "''http://example.com''" and attempt = 3 and rest = "[]"
        and w = "w0\<lparr>calls := 2\<rparr>",
        THEN conjunct2, THEN conjunct2, THEN conjunct2, THEN conjunct1, rule_format,
        of "\<lparr>status_code = 200, rtext = Some ''hello''\<rparr>"] nocap rc
    by (simp add: twice_429_then_200_def w0_def)
  have c: "check_url_loop value_error_then_200 rng_half ''http://example.com'' [1, 2, 3] w0 =
       check_url_loop value_error_then_200 rng_half ''http://example.com'' [2, 3]
         \<lparr>calls = 1, draws = 1, sleeps = [3],
          messages = [PrintError ''http://example.com'' (OtherException ''ValueError'')]\<rparr>"
    using C5_retryable_classification[where session = value_error_then_200 and rng = rng_half
        and url = "''http://example.com''" and attempt = 1 and rest = "[2, 3]" and w = w0,
        THEN conjunct2, THEN conjunct1, rule_format, of "OtherException ''ValueError''"]
    by (simp add: value_error_then_200_def w0_def uniform_def rng_half_def)
  show ?thesis by (intro conjI cap a b c)
qed

text \<open>
  Claim C6. Within one lookup the delays slept do not exceed 20 seconds. In
  \<open>lookup_postcode\<close> (the exponential variant) the delay after attempt \<open>n\<close> is
  \<open>min(20, 2^n)\<close> (the sleep of index \<open>n - 1\<close> in the list), so the delays are
  non-decreasing, at least 2 and at most 20. In \<open>check_url\<close> (the jittered variant) every
  delay lies within the configured bounds of 1 and 20 seconds. The random draws are taken
  as real numbers in \<open>[0, 1)\<close>.
\<close>

theorem C6_backoff_delays:
  assumes "\<forall>n. 0 \<le> rng n \<and> rng n < 1"
  shows "(\<exists>k\<le>nat retries.
            sleeps (snd (lookup_postcode geocode address retries v)) =
              sleeps v @ map (\<lambda>n. real_of_int (min 20 (2 ^ Suc n))) [0..<k])
     \<and> sorted (drop (length (sleeps v)) (sleeps (snd (lookup_postcode geocode address retries v))))
     \<and> (\<forall>d\<in>set (drop (length (sleeps v))
                 (sleeps (snd (lookup_postcode geocode address retries v)))). 2 \<le> d \<and> d \<le> 20)
     \<and> take (length (sleeps w)) (sleeps (snd (check_url session rng url max_retries w))) = sleeps w
     \<and> (\<forall>d\<in>set (drop (length (sleeps w))
                 (sleeps (snd (check_url session rng url max_retries w)))). 1 \<le> d \<and> d \<le> 20)"
proof -
  obtain k where k: "k \<le> length [1..retries]"
    "sleeps (snd (lookup_postcode_loop geocode address [1..retries] v)) =
      sleeps v @ map (\<lambda>a. real_of_int (backoff a)) (take k [1..retries])"
    using lookup_postcode_loop_sleeps[of "[1..retries]" geocode address v] by blast
  have kr: "k \<le> nat retries" using k(1) by simp
  have eq: "sleeps (snd (lookup_postcode geocode address retries v)) =
      sleeps v @ map (\<lambda>n. real_of_int (min 20 (2 ^ Suc n))) [0..<k]"
    unfolding lookup_postcode_def using k(2) backoff_upto[OF kr] by simp
  have bound: "\<And>n :: nat. 2 \<le> real_of_int (min 20 (2 ^ Suc n)) \<and> real_of_int (min 20 (2 ^ Suc n)) \<le> 20"
  proof -
    fix n :: nat
    have "(2::int) ^ Suc 0 \<le> 2 ^ Suc n" by (rule power_increasing) simp_all
    then have "(2::int) \<le> min 20 (2 ^ Suc n)" by simp
    then show "2 \<le> real_of_int (min 20 (2 ^ Suc n)) \<and> real_of_int (min 20 (2 ^ Suc n)) \<le> 20"
      by (metis min.cobounded1 of_int_le_iff of_int_numeral)
  qed
  obtain ds where ds: "sleeps (snd (check_url_loop session rng url [1..max_retries] w)) = sleeps w @ ds"
    "\<forall>d\<in>set ds. \<exists>n. d = uniform 5 10 (rng n) \<or> d = uniform 2 4 (rng n)"
    using check_url_loop_sleeps[of session rng url "[1..max_retries]" w] by blast
  have jit: "\<forall>d\<in>set ds. 1 \<le> d \<and> d \<le> 20"
  proof
    fix d assume "d \<in> set ds"
    then obtain n where n: "d = uniform 5 10 (rng n) \<or> d = uniform 2 4 (rng n)"
      using ds(2) by blast
    have "0 \<le> rng n" "rng n < 1" using assms by auto
    then show "1 \<le> d \<and> d \<le> 20" using n by (auto simp: uniform_def)
  qed
  show ?thesis
    using kr eq sorted_backoff[of k] bound ds(1) jit
    unfolding check_url_def by auto
qed

theorem C6_witness:
  "sleeps (snd (lookup_postcode timeout_geocoder ''456 Elm St'' 6 w0)) = [2, 4, 8, 16, 20, 20]
   \<and> sorted (sleeps (snd (lookup_postcode timeout_geocoder ''456 Elm St'' 6 w0)))
   \<and> sleeps (snd (check_url always_429 rng_half ''http://example.com'' 3 w0)) = [15/2, 15/2, 15/2]"
proof -
  have h: "\<forall>n. 0 \<le> rng_half n \<and> rng_half n < 1" by (simp add: rng_half_def)
  have a: "sleeps (snd (lookup_postcode timeout_geocoder ''456 Elm St'' 6 w0)) = [2, 4, 8, 16, 20, 20]"
    by (simp add: lookup_postcode_def timeout_geocoder_def caught_by_lookup_def w0_def upto_rec1
        Let_def backoff_def)
  have b: "sleeps (snd (check_url always_429 rng_half ''http://example.com'' 3 w0)) = [15/2, 15/2, 15/2]"
    by (simp add: check_url_def always_429_def w0_def soft_failure_def upto_rec1 uniform_def
        rng_half_def Let_def)
  show ?thesis
    using C6_backoff_delays[OF h, where geocode = timeout_geocoder and address = "''456 Elm St''"
        and retries = 6 and v = w0 and session = always_429 and url = "''http://example.com''"
        and max_retries = 3 and w = w0] a b
    by (simp add: w0_def)
qed

text \<open>
  Claim C9, as stated, fails for a zip cell that holds the number 0: \<open>not 0\<close> is true,
  so the row is looked up and its zip cell is overwritten and highlighted.
\<close>

theorem C9_counterexample:
  "zip_value zero_zip_row = CInt 0
   \<and> fst (snd (fill_blank_zips cell_geocoder rng_half [zero_zip_row] w0)) =
       [zero_zip_row\<lparr>zip_value := CStr ''90210'', zip_yellow := True\<rparr>]
   \<and> calls (snd (snd (fill_blank_zips cell_geocoder rng_half [zero_zip_row] w0))) = 1"
  by (simp add: fill_blank_zips_def fill_row_def zero_zip_row_def zip_is_blank_def
      lookup_postcode_def cell_geocoder_def address_dict_def w0_def upto_rec1 Let_def)

text \<open>
  Claim C9, amended. In the pass over the worksheet every row whose zip cell is not blank
  for the test of the loop is skipped: the row and all effects are left as they were, so
  no lookup is made for it. A row that the loop changes had a blank zip cell, and the
  change is a non-empty postcode in the zip cell together with the yellow fill. Blank for
  the test are \<open>None\<close>, a string of whitespace only (the empty string too), the number 0
  and \<open>False\<close>.
\<close>

theorem C9_only_blank_zip_cells_are_filled:
  assumes "fill_blank_zips geocode rng rows w = (res, rows', w')"
  shows "length rows' = length rows
     \<and> (\<forall>i<length rows. \<not> zip_is_blank (zip_value (rows ! i)) \<longrightarrow> rows' ! i = rows ! i)
     \<and> (\<forall>i<length rows. rows' ! i \<noteq> rows ! i \<longrightarrow>
           zip_is_blank (zip_value (rows ! i)) \<and> zip_yellow (rows' ! i)
           \<and> (\<exists>postcode. postcode \<noteq> [] \<and> zip_value (rows' ! i) = CStr postcode)
           \<and> full_address (rows' ! i) = full_address (rows ! i))
     \<and> ((\<forall>r\<in>set rows. \<not> zip_is_blank (zip_value r)) \<longrightarrow> res = None \<and> rows' = rows \<and> w' = w)
     \<and> (\<forall>n r u. \<not> zip_is_blank (zip_value r) \<longrightarrow> fill_row geocode rng n r u = (None, r, u))
     \<and> (\<forall>v. zip_is_blank v \<longleftrightarrow>
           v = CNone \<or> v = CInt 0 \<or> v = CBool False
           \<or> (\<exists>s. v = CStr s \<and> (\<forall>c\<in>set s. isspace c)))"
proof -
  have fr: "list_all2 (\<lambda>r r'. r' = r \<or> row_filled r r') rows rows'"
    using fill_rows_frame[of geocode rng 2 rows w res rows' w'] assms
    by (simp add: fill_blank_zips_def)
  have len: "length rows' = length rows" using fr by (simp add: list_all2_lengthD)
  have nth: "\<And>i. i < length rows \<Longrightarrow> rows' ! i = rows ! i \<or> row_filled (rows ! i) (rows' ! i)"
    using fr by (simp add: list_all2_conv_all_nth)
  have a: "\<forall>i<length rows. \<not> zip_is_blank (zip_value (rows ! i)) \<longrightarrow> rows' ! i = rows ! i"
    using nth by (auto simp: row_filled_def)
  have b: "\<forall>i<length rows. rows' ! i \<noteq> rows ! i \<longrightarrow>
           zip_is_blank (zip_value (rows ! i)) \<and> zip_yellow (rows' ! i)
           \<and> (\<exists>postcode. postcode \<noteq> [] \<and> zip_value (rows' ! i) = CStr postcode)
           \<and> full_address (rows' ! i) = full_address (rows ! i)"
  proof (intro allI impI)
    fix i assume i: "i < length rows" and ne: "rows' ! i \<noteq> rows ! i"
    then have "row_filled (rows ! i) (rows' ! i)" using nth by blast
    then show "zip_is_blank (zip_value (rows ! i)) \<and> zip_yellow (rows' ! i)
           \<and> (\<exists>postcode. postcode \<noteq> [] \<and> zip_value (rows' ! i) = CStr postcode)
           \<and> full_address (rows' ! i) = full_address (rows ! i)"
      by (auto simp: row_filled_def)
  qed
  have c: "(\<forall>r\<in>set rows. \<not> zip_is_blank (zip_value r)) \<longrightarrow> res = None \<and> rows' = rows \<and> w' = w"
    using fill_rows_nothing_blank[of rows geocode rng 2 w] assms
    by (auto simp: fill_blank_zips_def)
  show ?thesis using len a b c fill_row_skips zip_is_blank_iff by blast
qed

theorem C9_witness:
  "\<not> zip_is_blank (zip_value filled_row)
   \<and> fill_blank_zips cell_geocoder rng_half [filled_row, empty_zip_row] w0 =
       (None,
        [filled_row, empty_zip_row\<lparr>zip_value := CStr ''90210'', zip_yellow := True\<rparr>],
        \<lparr>calls = 1, draws = 1, sleeps = [3], messages = [LogInfoFilled 3 ''90210'']\<rparr>)"
proof -
  have nb: "\<not> zip_is_blank (zip_value filled_row)"
    by (simp add: filled_row_def zip_is_blank_def strip_def isspace_def)
  have bl: "zip_is_blank (zip_value empty_zip_row)"
    by (simp add: empty_zip_row_def zip_is_blank_def)
  have run: "fill_blank_zips cell_geocoder rng_half [filled_row, empty_zip_row] w0 =
       (None,
        [filled_row, empty_zip_row\<lparr>zip_value := CStr ''90210'', zip_yellow := True\<rparr>],
        \<lparr>calls = 1, draws = 1, sleeps = [3], messages = [LogInfoFilled 3 ''90210'']\<rparr>)"
    using nb bl
    by (simp add: fill_blank_zips_def fill_row_def empty_zip_row_def
      lookup_postcode_def cell_geocoder_def address_dict_def w0_def upto_rec1 Let_def
      uniform_def rng_half_def)
  show ?thesis using C9_only_blank_zip_cells_are_filled[OF run] nb run by simp
qed

end
